theory Spec2Isabelle
  imports Main "HOL-Library.Word" "HOL-Library.Monad_Syntax"
begin

section \<open>ESP32 BLE Typist: a shallow embedding of the playback engine\<close>

text \<open>
  The sketch \<^verbatim>\<open>pro(beta).cpp\<close> types a text on a BLE keyboard with human-like
  pacing.  This theory embeds its text preprocessing, its request handlers and its
  playback loop.  Arduino \<^verbatim>\<open>String\<close> values are \<^typ>\<open>string\<close> (lists of 8-bit
  characters), \<^verbatim>\<open>int\<close> values are \<^typ>\<open>int\<close>, and the millisecond clock is a
  32-bit word as \<^verbatim>\<open>unsigned long\<close> is on the ESP32.
\<close>

subsection \<open>Characters and small utilities\<close>

abbreviation CR :: char where "CR \<equiv> CHR 0x0D"
abbreviation LF :: char where "LF \<equiv> CHR 0x0A"
abbreviation SP :: char where "SP \<equiv> CHR 0x20"

text \<open>\<^verbatim>\<open>isspace((unsigned char)c)\<close> in the C locale: space, and the control characters
  HT, LF, VT, FF, CR (codes 9 to 13).\<close>

definition isspace :: "char \<Rightarrow> bool" where
  "isspace c = (c = SP \<or> (9 \<le> (of_char c :: nat) \<and> (of_char c :: nat) \<le> 13))"

definition isupper :: "char \<Rightarrow> bool" where
  "isupper c = (65 \<le> (of_char c :: nat) \<and> (of_char c :: nat) \<le> 90)"

definition toupper :: "char \<Rightarrow> char" where
  "toupper c = (if 97 \<le> (of_char c :: nat) \<and> (of_char c :: nat) \<le> 122
                then char_of ((of_char c :: nat) - 32) else c)"

text \<open>Line 315.\<close>

definition clampInt :: "int \<Rightarrow> int \<Rightarrow> int \<Rightarrow> int" where
  "clampInt v a b = (if v < a then a else if v > b then b else v)"

text \<open>\<^verbatim>\<open>String::operator[]\<close>: an index past the end reads as the NUL character.\<close>

definition charAt :: "string \<Rightarrow> nat \<Rightarrow> char" where
  "charAt t k = (if k < length t then t ! k else CHR 0x00)"

subsection \<open>Text preprocessing\<close>

text \<open>Lines 367 to 380: the loop of \<^verbatim>\<open>preprocessText\<close>, with \<^verbatim>\<open>out\<close> as the
  accumulator and the unread rest of the input as the loop variable.\<close>

fun preprocessLoop :: "int \<Rightarrow> string \<Rightarrow> string \<Rightarrow> string" where
  "preprocessLoop m out [] = out"
| "preprocessLoop m out (c # cs) =
     (if c = CR \<or> c = LF
      then (if m = 1 then preprocessLoop m (out @ [SP]) cs else preprocessLoop m out cs)
      else preprocessLoop m (out @ [c]) cs)"

definition preprocessText :: "int \<Rightarrow> string \<Rightarrow> string" where
  "preprocessText m inp = (if m = 0 then inp else preprocessLoop m [] inp)"

text \<open>Lines 525 to 556: the code-mode filter.  \<^verbatim>\<open>text\<close> is the accumulator,
  \<^verbatim>\<open>startOfLine\<close> the flag; a CR consumes a directly following LF as well.\<close>

fun codeFilter :: "string \<Rightarrow> bool \<Rightarrow> string \<Rightarrow> string" where
  "codeFilter text startOfLine [] = text"
| "codeFilter text startOfLine (c # cs) =
     (if c = CR
      then codeFilter (text @ [LF]) True (if cs \<noteq> [] \<and> hd cs = LF then tl cs else cs)
      else if c = LF then codeFilter (text @ [LF]) True cs
      else if startOfLine \<and> isspace c then codeFilter text startOfLine cs
      else codeFilter (text @ [c]) False cs)"

text \<open>The same filter as the specification words it: first normalise every CRLF pair
  and every lone CR to one LF, then scan with the start-of-line flag.\<close>

fun normalizeNewlines :: "string \<Rightarrow> string" where
  "normalizeNewlines [] = []"
| "normalizeNewlines (c # cs) =
     (if c = CR
      then LF # normalizeNewlines (if cs \<noteq> [] \<and> hd cs = LF then tl cs else cs)
      else c # normalizeNewlines cs)"

fun stripLeading :: "bool \<Rightarrow> string \<Rightarrow> string" where
  "stripLeading startOfLine [] = []"
| "stripLeading startOfLine (c # cs) =
     (if c = LF then LF # stripLeading True cs
      else if startOfLine \<and> isspace c then stripLeading startOfLine cs
      else c # stripLeading False cs)"

subsection \<open>Configuration, environment and machine state\<close>

text \<open>The runtime configuration, lines 35 to 58 (all \<^verbatim>\<open>volatile\<close> globals).\<close>

record config =
  configuredWPM :: int
  strictWPM :: bool
  jitterStrengthPct :: int
  thinkingSpaceChance :: int
  mistakePercent :: int
  enableTypos :: bool
  enableLongPauses :: bool
  longPausePercent :: int
  longPauseMinMs :: int
  longPauseMaxMs :: int
  newlineMode :: int
  extraPunctPause :: bool
  codeMode :: bool
  typoMaxChars :: int
  maxSimultaneousErrors :: int
  holdMinMs :: int
  holdMaxMs :: int

definition defaults :: config where
  "defaults = \<lparr> configuredWPM = 100, strictWPM = False, jitterStrengthPct = 12,
     thinkingSpaceChance = 0, mistakePercent = 3, enableTypos = True,
     enableLongPauses = True, longPausePercent = 5, longPauseMinMs = 600,
     longPauseMaxMs = 1200, newlineMode = 1, extraPunctPause = True, codeMode = False,
     typoMaxChars = 1, maxSimultaneousErrors = 1, holdMinMs = 18, holdMaxMs = 100 \<rparr>"

text \<open>What one call of \<^verbatim>\<open>server.handleClient()\<close> finds: nothing, one HTTP request
  routed to its handler (lines 758 to 764), or, as an event of the environment, a change of
  the BLE link.  A \<^verbatim>\<open>/config\<close> request carries its arguments by name, each already
  read through \<^verbatim>\<open>toInt()\<close>.\<close>

datatype event =
    Quiet
  | Link bool
  | TypeReq string
  | StopReq
  | PauseReq
  | ConfigReq "(string \<times> int) list"
  | StatusReq

text \<open>What the output sink is given.\<close>

datatype keyev = Key char | Backspace

text \<open>HTTP answers: a status code, or the status document of \<^verbatim>\<open>handleStatus\<close>, of
  which the run-time fields (ble, typed, running, paused) are kept.\<close>

datatype response = Reply nat | StatusDoc bool nat bool bool

text \<open>The arguments of the pacing computation of lines 442 to 456, which is floating
  point (\<^verbatim>\<open>logf\<close>, \<^verbatim>\<open>expf\<close>, \<^verbatim>\<open>cosf\<close>) and stays a parameter of the model.\<close>

record pace_in =
  p_wpm :: int
  p_speed :: int
  p_jitter :: int
  p_elapsed :: nat
  p_cursor :: nat
  p_total :: nat
  p_u1 :: int
  p_u2 :: int
  p_j :: int

record state =
  cfg :: config
  sessionSpeedPct :: int
  typingActive :: bool
  paused :: bool
  typedChars :: nat
  clock :: "32 word"
  link :: bool
  rng :: "nat list"
  pending :: "event list"
  sampler :: "pace_in \<Rightarrow> nat"
  sent :: "(keyev \<times> bool) list"
  replies :: "response list"

text \<open>
  \<^item> \<^const>\<open>sessionSpeedPct\<close> is the draw \<^verbatim>\<open>random(-10,11)\<close> of line 413;
    \<^verbatim>\<open>sessionSpeedMultiplier\<close> is \<^verbatim>\<open>1 + pct/100\<close>.
  \<^item> \<^const>\<open>clock\<close> is \<^verbatim>\<open>millis()\<close>; \<^const>\<open>link\<close> is \<^verbatim>\<open>bleKeyboard.isConnected()\<close>.
  \<^item> \<^const>\<open>rng\<close> holds the raw values the coming calls of \<^verbatim>\<open>random\<close> draw, and
    \<^const>\<open>pending\<close> what the coming calls of \<^verbatim>\<open>server.handleClient()\<close> find.
  \<^item> \<^const>\<open>sent\<close> lists every key event given to the sink, each with the link status at
    that moment; \<^const>\<open>replies\<close> lists the HTTP answers.
  The keystroke log (lines 359 to 364) is written but never read by the engine and is left
  out.
\<close>

definition keys :: "state \<Rightarrow> keyev list" where
  "keys s = map fst (sent s)"

text \<open>Arduino's \<^verbatim>\<open>random(lo, hi)\<close>: \<^verbatim>\<open>lo\<close> when \<^verbatim>\<open>hi \<le> lo\<close>, otherwise a value
  from \<^verbatim>\<open>lo\<close> to \<^verbatim>\<open>hi - 1\<close>, here the raw draw reduced modulo the width.\<close>

definition random_of :: "int \<Rightarrow> int \<Rightarrow> nat \<Rightarrow> int" where
  "random_of lo hi raw = (if hi \<le> lo then lo else lo + int (raw mod nat (hi - lo)))"

definition random :: "int \<Rightarrow> int \<Rightarrow> state \<Rightarrow> int \<times> state" where
  "random lo hi s =
     (if hi \<le> lo then (lo, s)
      else case rng s of
             [] \<Rightarrow> (lo, s)
           | r # rs \<Rightarrow> (random_of lo hi r, s\<lparr>rng := rs\<rparr>))"

text \<open>Lines 352 to 356.\<close>

definition sendChar :: "char \<Rightarrow> state \<Rightarrow> state" where
  "sendChar c s = s\<lparr>sent := sent s @ [(Key c, link s)]\<rparr>"

definition sendBackspace :: "state \<Rightarrow> state" where
  "sendBackspace s = s\<lparr>sent := sent s @ [(Backspace, link s)]\<rparr>"

text \<open>\<^verbatim>\<open>delay(k)\<close>: the clock moves on by \<^verbatim>\<open>k\<close> milliseconds.  Time passes in
  \<^verbatim>\<open>delay\<close> only; handlers and key events take none.\<close>

definition delay :: "32 word \<Rightarrow> state \<Rightarrow> state" where
  "delay k s = s\<lparr>clock := clock s + k\<rparr>"

definition reply :: "nat \<Rightarrow> state \<Rightarrow> state" where
  "reply code s = s\<lparr>replies := replies s @ [Reply code]\<rparr>"

subsection \<open>Handlers without a session\<close>

text \<open>Lines 659 to 683.\<close>

definition handleStatus :: "state \<Rightarrow> state" where
  "handleStatus s =
     s\<lparr>replies := replies s @ [StatusDoc (link s) (typedChars s) (typingActive s) (paused s)]\<rparr>"

text \<open>Lines 685 to 708.  \<^verbatim>\<open>server.hasArg(k)\<close> is \<open>map_of args k \<noteq> None\<close>.\<close>

definition setInt :: "(string \<times> int) list \<Rightarrow> string \<Rightarrow> int \<Rightarrow> int \<Rightarrow> int \<Rightarrow> int" where
  "setInt args k a b old = (case map_of args k of None \<Rightarrow> old | Some v \<Rightarrow> clampInt v a b)"

definition setBool :: "(string \<times> int) list \<Rightarrow> string \<Rightarrow> bool \<Rightarrow> bool" where
  "setBool args k old = (case map_of args k of None \<Rightarrow> old | Some v \<Rightarrow> v \<noteq> 0)"

definition configKeys :: "string list" where
  "configKeys = [''wpm'', ''strict'', ''jitter'', ''think'', ''typos'', ''lpen'', ''lpc'',
     ''lpmin'', ''lpmax'', ''nl'', ''codemode'', ''typoMax'', ''mistake'', ''holdMin'',
     ''holdMax'']"

definition applyConfig :: "(string \<times> int) list \<Rightarrow> config \<Rightarrow> config" where
  "applyConfig args c =
     (let c1 = c\<lparr> configuredWPM := setInt args ''wpm'' 10 300 (configuredWPM c),
                   strictWPM := setBool args ''strict'' (strictWPM c),
                   jitterStrengthPct := setInt args ''jitter'' 5 45 (jitterStrengthPct c),
                   thinkingSpaceChance := setInt args ''think'' 0 100 (thinkingSpaceChance c),
                   enableTypos := setBool args ''typos'' (enableTypos c),
                   enableLongPauses := setBool args ''lpen'' (enableLongPauses c),
                   longPausePercent := setInt args ''lpc'' 0 100 (longPausePercent c),
                   longPauseMinMs := setInt args ''lpmin'' 50 20000 (longPauseMinMs c),
                   longPauseMaxMs := setInt args ''lpmax'' 50 30000 (longPauseMaxMs c),
                   newlineMode := setInt args ''nl'' 0 2 (newlineMode c),
                   codeMode := setBool args ''codemode'' (codeMode c),
                   typoMaxChars := setInt args ''typoMax'' 1 6 (typoMaxChars c),
                   mistakePercent := setInt args ''mistake'' 0 100 (mistakePercent c),
                   holdMinMs := setInt args ''holdMin'' 2 1000 (holdMinMs c),
                   holdMaxMs := setInt args ''holdMax'' 2 2000 (holdMaxMs c) \<rparr>;
          c2 = (if holdMinMs c1 > holdMaxMs c1
                then c1\<lparr>holdMinMs := holdMaxMs c1, holdMaxMs := holdMinMs c1\<rparr> else c1)
      in if longPauseMinMs c2 > longPauseMaxMs c2
         then c2\<lparr>longPauseMinMs := longPauseMaxMs c2, longPauseMaxMs := longPauseMinMs c2\<rparr>
         else c2)"

definition handleConfig :: "(string \<times> int) list \<Rightarrow> state \<Rightarrow> state" where
  "handleConfig args s =
     (let changed = list_ex (\<lambda>k. map_of args k \<noteq> None) configKeys
      in reply (if changed then 200 else 400) (s\<lparr>cfg := applyConfig args (cfg s)\<rparr>))"

text \<open>Line 723.\<close>

definition handleStop :: "state \<Rightarrow> state" where
  "handleStop s = reply 200 (s\<lparr>typingActive := False, paused := False\<rparr>)"

text \<open>Lines 726 to 730.\<close>

definition handlePause :: "state \<Rightarrow> state" where
  "handlePause s =
     (if \<not> typingActive s then reply 409 s else reply 200 (s\<lparr>paused := \<not> paused s\<rparr>))"

subsection \<open>Mistake chunks\<close>

text \<open>Lines 470 to 472 (and 618, 619): the length of a mistake chunk from the draw
  \<^verbatim>\<open>random(0, typoMaxChars-1)\<close> and the characters left, \<^verbatim>\<open>N - i\<close>.\<close>

definition typoLen :: "int \<Rightarrow> int \<Rightarrow> int \<Rightarrow> int" where
  "typoLen tmax remaining d =
     (let len = clampInt (1 + d) 1 tmax in if remaining < len then remaining else len)"

text \<open>Lines 386 to 395.  The coin \<^verbatim>\<open>random(0,2)\<close> is only drawn for an upper-case
  correct character.\<close>

fun createMistakeChunk :: "char \<Rightarrow> nat \<Rightarrow> string \<Rightarrow> state \<Rightarrow> string \<times> state" where
  "createMistakeChunk correctChar 0 acc s = (acc, s)"
| "createMistakeChunk correctChar (Suc k) acc s =
     (let (d, s1) = random 0 26 s;
          ch = char_of (97 + nat d);
          (up, s2) = (if isupper correctChar
                      then (let (r, s') = random 0 2 s1 in (r \<noteq> 0, s'))
                      else (False, s1))
      in createMistakeChunk correctChar k (acc @ [if up then toupper ch else ch]) s2)"

subsection \<open>The playback engine\<close>

text \<open>What a session fixes when it starts (lines 425 to 432 and 566 to 573): the
  preprocessed text, the mode, \<^verbatim>\<open>strict\<close>, \<^verbatim>\<open>sessionWPM\<close>, the speed draw behind
  \<^verbatim>\<open>baseMs\<close>, the clamped jitter and \<^verbatim>\<open>startMs\<close>.\<close>

record session =
  s_text :: string
  s_code :: bool
  s_strict :: bool
  s_wpm :: int
  s_speed :: int
  s_jitter :: int
  s_startMs :: "32 word"

definition beginSession :: "string \<Rightarrow> bool \<Rightarrow> state \<Rightarrow> session \<times> state" where
  "beginSession text code s =
     (let s1 = s\<lparr>typingActive := True, paused := False, typedChars := 0\<rparr>;
          (off, s2) = random (- 2) 3 s1
      in (\<lparr> s_text = text, s_code = code, s_strict = strictWPM (cfg s2),
             s_wpm = clampInt (configuredWPM (cfg s2) + off) 10 300,
             s_speed = sessionSpeedPct s2,
             s_jitter = clampInt (jitterStrengthPct (cfg s2)) 5 45,
             s_startMs = clock s2 \<rparr>, s2))"

text \<open>Lines 442 to 456: \<^verbatim>\<open>(int)nextDelay\<close>, at least \<^verbatim>\<open>MIN_DELAY\<close>, with the three
  draws of \<^verbatim>\<open>gaussian_rand\<close> and the jitter factor taken in the source's order.\<close>

definition nextDelay :: "session \<Rightarrow> nat \<Rightarrow> state \<Rightarrow> int \<times> state" where
  "nextDelay ses i s =
     (let elapsed = unat (clock s - s_startMs ses);
          (u1, s1) = random 1 10001 s;
          (u2, s2) = random 1 10001 s1;
          (j, s3) = random (- 1000) 1001 s2
      in (int (max 3 (sampler s3 \<lparr> p_wpm = s_wpm ses, p_speed = s_speed ses,
                p_jitter = s_jitter ses, p_elapsed = elapsed, p_cursor = i,
                p_total = length (s_text ses), p_u1 = u1, p_u2 = u2, p_j = j \<rparr>)), s3))"

definition isPunct :: "char \<Rightarrow> bool" where
  "isPunct c = (c = CHR ''.'' \<or> c = CHR '','' \<or> c = CHR ''!'' \<or> c = CHR ''?''
                \<or> c = CHR '';'' \<or> c = CHR '':'')"

definition alnum :: "char \<Rightarrow> bool" where
  "alnum c = (let k = (of_char c :: nat)
              in (97 \<le> k \<and> k \<le> 122) \<or> (65 \<le> k \<and> k \<le> 90) \<or> (48 \<le> k \<and> k \<le> 57))"

text \<open>Lines 462 and 610: whether a long pause is taken before this character.\<close>

definition longPauseDraw :: "session \<Rightarrow> char \<Rightarrow> state \<Rightarrow> bool \<times> state" where
  "longPauseDraw ses c s =
     (if \<not> s_strict ses \<and> enableLongPauses (cfg s) \<and> c = SP
      then (let (r, s1) = random 0 100 s in (r < longPausePercent (cfg s1), s1))
      else (False, s))"

text \<open>Lines 467 and 615: \<^verbatim>\<open>beginTypo\<close>; \<^verbatim>\<open>mc\<close> is \<^verbatim>\<open>mistakesCurrently\<close>.\<close>

definition beginTypo :: "session \<Rightarrow> char \<Rightarrow> int \<Rightarrow> state \<Rightarrow> bool \<times> state" where
  "beginTypo ses c mc s =
     (if \<not> s_strict ses \<and> enableTypos (cfg s)
      then (let (r, s1) = random 0 100 s
            in (r < mistakePercent (cfg s1) \<and> alnum c \<and> mc < maxSimultaneousErrors (cfg s1), s1))
      else (False, s))"

text \<open>Lines 494 to 502: the extra pause and the hold after a plain character.\<close>

definition plainWait :: "session \<Rightarrow> char \<Rightarrow> int \<Rightarrow> state \<Rightarrow> 32 word \<times> state" where
  "plainWait ses c nd s =
     (let (e1, s1) = (if \<not> s_strict ses \<and> c = SP then random 40 140 s else (0, s));
          (e2, s2) = (if \<not> s_strict ses \<and> extraPunctPause (cfg s1) \<and> isPunct c
                      then random 80 220 s1 else (0, s1));
          (e3, s3) = (if \<not> s_strict ses \<and> (c = LF \<or> c = CR) then random 120 320 s2 else (0, s2));
          (hold, s4) = random (holdMinMs (cfg s3)) (holdMaxMs (cfg s3) + 1) s3
      in (word_of_int nd + word_of_int (e1 + e2 + e3) + word_of_int hold, s4))"

text \<open>Lines 505 and 641: whether a thinking pause follows this character.\<close>

definition thinkDraw :: "session \<Rightarrow> char \<Rightarrow> state \<Rightarrow> bool \<times> state" where
  "thinkDraw ses c s =
     (if \<not> s_strict ses \<and> c = SP \<and> thinkingSpaceChance (cfg s) > 0
      then (let (r, s1) = random 0 (thinkingSpaceChance (cfg s)) s in (r = 0, s1))
      else (False, s))"

text \<open>
  The functions that wait call \<^verbatim>\<open>server.handleClient()\<close>, which may run any handler;
  they take that call as their first argument \<open>hc\<close>.  Every loop takes a step budget and
  answers \<open>None\<close> when it runs out: a loop that never ends in the sketch (a pause that is
  never lifted) has no budget that is enough.
\<close>

text \<open>The loop that waits while paused: lines 342 to 346, and lines 440 and 581.\<close>

fun pauseWait :: "(state \<Rightarrow> state option) \<Rightarrow> nat \<Rightarrow> state \<Rightarrow> state option" where
  "pauseWait hc 0 s = None"
| "pauseWait hc (Suc n) s =
     (if paused s \<and> typingActive s
      then do {
        s1 \<leftarrow> hc s;
        pauseWait hc n (delay 1 s1)
      }
      else Some s)"

text \<open>Lines 337 to 350: \<open>coopWait\<close> is the outer loop, \<open>start\<close> its local.\<close>

fun coopWait :: "(state \<Rightarrow> state option) \<Rightarrow> nat \<Rightarrow> 32 word \<Rightarrow> 32 word \<Rightarrow> state \<Rightarrow> state option" where
  "coopWait hc 0 start ms s = None"
| "coopWait hc (Suc n) start ms s =
     (if typingActive s \<and> clock s - start < ms
      then do {
        s1 \<leftarrow> hc s;
        s2 \<leftarrow> pauseWait hc n s1;
        coopWait hc n start ms (delay 1 s2)
      }
      else Some s)"

definition coopDelay :: "(state \<Rightarrow> state option) \<Rightarrow> nat \<Rightarrow> 32 word \<Rightarrow> state \<Rightarrow> state option" where
  "coopDelay hc n ms s = coopWait hc n (clock s) ms s"

text \<open>Lines 398 to 406.\<close>

fun sendCharsWithHold ::
  "(state \<Rightarrow> state option) \<Rightarrow> nat \<Rightarrow> string \<Rightarrow> int \<Rightarrow> int \<Rightarrow> state \<Rightarrow> state option" where
  "sendCharsWithHold hc n [] holdMin holdMax s = Some s"
| "sendCharsWithHold hc n (ch # rest) holdMin holdMax s =
     (if \<not> typingActive s then Some s
      else (let (hold, s1) = random holdMin (holdMax + 1) (sendChar ch s) in
            do {
              s2 \<leftarrow> coopDelay hc n (word_of_int hold) s1;
              sendCharsWithHold hc n rest holdMin holdMax s2
            }))"

text \<open>Lines 480 and 624: the backspace loop, counting what is left to erase.\<close>

fun backspaces :: "(state \<Rightarrow> state option) \<Rightarrow> nat \<Rightarrow> nat \<Rightarrow> state \<Rightarrow> state option" where
  "backspaces hc n 0 s = Some s"
| "backspaces hc n (Suc todo) s =
     (if \<not> typingActive s then Some s
      else (let (d, s1) = random 20 60 (sendBackspace s) in
            do {
              s2 \<leftarrow> coopDelay hc n (word_of_int d) s1;
              backspaces hc n todo s2
            }))"

text \<open>Lines 483 to 488 and 626: the loop that types the correct characters again;
  \<open>k\<close> is \<^verbatim>\<open>i + r\<close>, \<open>nd\<close> is \<^verbatim>\<open>(int)nextDelay\<close>.\<close>

fun retype ::
  "(state \<Rightarrow> state option) \<Rightarrow> nat \<Rightarrow> session \<Rightarrow> int \<Rightarrow> nat \<Rightarrow> nat \<Rightarrow> state \<Rightarrow> state option" where
  "retype hc n ses nd k 0 s = Some s"
| "retype hc n ses nd k (Suc todo) s =
     (if \<not> typingActive s then Some s
      else (let s1 = sendChar (charAt (s_text ses) k) s;
                (extraHold, s2) = random (holdMinMs (cfg s1)) (holdMaxMs (cfg s1) + 1) s1
            in do {
              s3 \<leftarrow> coopDelay hc n (word_of_int (max (nd div 2) extraHold)) s2;
              retype hc n ses nd (Suc k) todo s3
            }))"

text \<open>The \<^verbatim>\<open>beginTypo\<close> branch, lines 470 to 488 and 618 to 626.  The answer says
  whether the \<^verbatim>\<open>break\<close> of line 479 was taken, and gives \<^verbatim>\<open>len\<close>.\<close>

definition typoChunk ::
  "(state \<Rightarrow> state option) \<Rightarrow> nat \<Rightarrow> session \<Rightarrow> int \<Rightarrow> char \<Rightarrow> nat \<Rightarrow> state
     \<Rightarrow> (bool \<times> int \<times> state) option" where
  "typoChunk hc n ses nd c i s =
     (let (d, s1) = random 0 (typoMaxChars (cfg s) - 1) s;
          len = typoLen (typoMaxChars (cfg s1)) (int (length (s_text ses) - i)) d;
          (wrong, s2) = createMistakeChunk c (nat len) [] s1
      in do {
        s3 \<leftarrow> sendCharsWithHold hc n wrong (holdMinMs (cfg s2)) (holdMaxMs (cfg s2)) s2;
        s4 \<leftarrow> coopDelay hc n (word_of_int (max 40 nd)) s3;
        if \<not> typingActive s4 then Some (True, len, s4)
        else do {
          s5 \<leftarrow> backspaces hc n (nat len) s4;
          s6 \<leftarrow> retype hc n ses nd i (nat len) s5;
          Some (False, len, s6)
        }
      })"

text \<open>The end of an iteration, lines 505 to 511 and 641 to 646; the answer says whether
  the \<^verbatim>\<open>break\<close> was taken.\<close>

definition afterChar ::
  "(state \<Rightarrow> state option) \<Rightarrow> nat \<Rightarrow> session \<Rightarrow> nat \<Rightarrow> char \<Rightarrow> state \<Rightarrow> (bool \<times> state) option" where
  "afterChar hc n ses i c s =
     (let (tp, s1) = thinkDraw ses c s in
      do {
        s2 \<leftarrow> (if tp then (let (d, s') = random 400 1000 s1 in coopDelay hc n (word_of_int d) s')
               else Some s1);
        if tp \<and> \<not> typingActive s2 then Some (True, s2)
        else do {
          s3 \<leftarrow> hc (s2\<lparr>typedChars := Suc i\<rparr>);
          Some (False, s3)
        }
      })"

text \<open>One iteration of the \<^verbatim>\<open>for\<close> loops of lines 436 to 512 and 577 to 647, after
  the loop condition: the two loops differ in the index type and in the line-feed branch of
  code mode (lines 600 to 605).  The answer is \<open>None\<close> in the option when the loop is
  left by \<^verbatim>\<open>break\<close>, and otherwise \<^verbatim>\<open>mistakesCurrently\<close> and the cursor as the
  iteration leaves them (before \<^verbatim>\<open>++i\<close>).\<close>

definition typeStep ::
  "(state \<Rightarrow> state option) \<Rightarrow> nat \<Rightarrow> session \<Rightarrow> int \<Rightarrow> nat \<Rightarrow> state
     \<Rightarrow> ((int \<times> nat) option \<times> state) option" where
  "typeStep hc n ses mc i s =
     (if \<not> link s then Some (None, s)
      else do {
        s1 \<leftarrow> pauseWait hc n s;
        let (nd, s2) = nextDelay ses i s1;
        let c = charAt (s_text ses) i;
        if s_code ses \<and> c = LF
        then do {
          s3 \<leftarrow> coopDelay hc n (word_of_int nd) (sendChar LF s2);
          Some (Some (mc, i), s3\<lparr>typedChars := Suc i\<rparr>)
        }
        else do {
          let (lp, s3) = longPauseDraw ses c s2;
          s4 \<leftarrow> (if lp
                 then (let (d, s') = random (longPauseMinMs (cfg s3)) (longPauseMaxMs (cfg s3) + 1) s3
                       in coopDelay hc n (word_of_int d) s')
                 else Some s3);
          if lp \<and> \<not> typingActive s4 then Some (None, s4)
          else do {
            let (bt, s5) = beginTypo ses c mc s4;
            if bt
            then do {
              (brk, len, s6) \<leftarrow> typoChunk hc n ses nd c i s5;
              if brk then Some (None, s6)
              else do {
                let i' = nat (int i + (len - 1));
                (brk', s7) \<leftarrow> afterChar hc n ses i' c s6;
                Some (if brk' then None else Some (mc + 1, i'), s7)
              }
            }
            else do {
              let (ms, s6) = plainWait ses c nd (sendChar c s5);
              s7 \<leftarrow> coopDelay hc n ms s6;
              (brk', s8) \<leftarrow> afterChar hc n ses i c s7;
              Some (if brk' then None else Some (mc, i), s8)
            }
          }
        }
      })"

text \<open>The \<^verbatim>\<open>for\<close> loop itself: \<open>mc\<close> is \<^verbatim>\<open>mistakesCurrently\<close>, \<open>i\<close> the cursor.\<close>

fun typeLoop ::
  "(state \<Rightarrow> state option) \<Rightarrow> nat \<Rightarrow> session \<Rightarrow> int \<Rightarrow> nat \<Rightarrow> state \<Rightarrow> state option" where
  "typeLoop hc 0 ses mc i s = None"
| "typeLoop hc (Suc n) ses mc i s =
     (if \<not> (i < length (s_text ses) \<and> typingActive s) then Some s
      else do {
        (r, s1) \<leftarrow> typeStep hc n ses mc i s;
        case r of
          None \<Rightarrow> Some s1
        | Some (mc', i') \<Rightarrow> typeLoop hc n ses mc' (Suc i') s1
      })"

text \<open>The text a session types: line 417 when code mode is off, lines 521 to 556 when
  it is on.\<close>

definition sessionText :: "config \<Rightarrow> string \<Rightarrow> string" where
  "sessionText c rawText =
     (if \<not> codeMode c then preprocessText (newlineMode c) rawText
      else codeFilter [] True rawText)"

text \<open>Lines 409 to 654.  The code after each loop is lines 514, 515 and 649 to 651.\<close>

definition typeLikeHuman :: "(state \<Rightarrow> state option) \<Rightarrow> nat \<Rightarrow> string \<Rightarrow> state \<Rightarrow> state option" where
  "typeLikeHuman hc n rawText s =
     (if \<not> link s then Some s
      else
        (let (d, s0) = random (- 10) 11 s;
             s1 = s0\<lparr>sessionSpeedPct := d\<rparr>;
             text = sessionText (cfg s1) rawText
         in if text = [] then Some s1
            else
              (let (ses, s2) = beginSession text (codeMode (cfg s1)) s1 in
               do {
                 s3 \<leftarrow> typeLoop hc n ses 0 0 s2;
                 let (d', s4) = random 0 300 (s3\<lparr>typingActive := False, paused := False\<rparr>);
                 coopDelay hc n (word_of_int (120 + d')) s4
               })))"

text \<open>Lines 710 to 721.\<close>

definition handleType :: "(state \<Rightarrow> state option) \<Rightarrow> nat \<Rightarrow> string \<Rightarrow> state \<Rightarrow> state option" where
  "handleType hc n body s =
     (if typingActive s then Some (reply 409 s)
      else if body = [] then Some (reply 400 s)
      else if \<not> link s then Some (reply 503 s)
      else typeLikeHuman hc n body ((delay 10 (reply 200 s))\<lparr>paused := False\<rparr>))"

text \<open>One call of \<^verbatim>\<open>server.handleClient()\<close>: \<open>dispatch\<close> takes what the call finds
  and \<open>serve\<close> routes it to its handler (lines 758 to 764).  Inside the session that a
  request starts, the dispatcher is the same function one level down: the level \<open>l\<close> bounds
  how deep sessions nest (a session can only start inside another at line 511 or 646, after
  a stop), and \<open>n\<close> is the step budget of the loops.\<close>

definition serve :: "(state \<Rightarrow> state option) \<Rightarrow> nat \<Rightarrow> event \<Rightarrow> state \<Rightarrow> state option" where
  "serve hc n e s =
     (case e of
        Quiet \<Rightarrow> Some s
      | Link b \<Rightarrow> Some (s\<lparr>link := b\<rparr>)
      | TypeReq body \<Rightarrow> handleType hc n body s
      | StopReq \<Rightarrow> Some (handleStop s)
      | PauseReq \<Rightarrow> Some (handlePause s)
      | ConfigReq args \<Rightarrow> Some (handleConfig args s)
      | StatusReq \<Rightarrow> Some (handleStatus s))"

definition dispatch :: "(state \<Rightarrow> state option) \<Rightarrow> nat \<Rightarrow> state \<Rightarrow> state option" where
  "dispatch hc n s =
     (case pending s of
        [] \<Rightarrow> Some s
      | e # es \<Rightarrow> serve hc n e (s\<lparr>pending := es\<rparr>))"

primrec handleClient :: "nat \<Rightarrow> nat \<Rightarrow> state \<Rightarrow> state option" where
  "handleClient 0 n = (\<lambda>s. None)"
| "handleClient (Suc l) n = dispatch (handleClient l n) n"

text \<open>The state after \<^verbatim>\<open>setup()\<close>, for a given environment: idle, not paused,
  nothing typed or answered yet.\<close>

definition boot :: "(pace_in \<Rightarrow> nat) \<Rightarrow> bool \<Rightarrow> nat list \<Rightarrow> event list \<Rightarrow> state" where
  "boot smp up rs evs =
     \<lparr> cfg = defaults, sessionSpeedPct = 0, typingActive = False, paused = False,
       typedChars = 0, clock = 0, link = up, rng = rs, pending = evs, sampler = smp,
       sent = [], replies = [] \<rparr>"

text \<open>\<open>drew s s'\<close>: \<open>s'\<close> is \<open>s\<close> after some calls of \<^verbatim>\<open>random\<close>.\<close>

definition drew :: "state \<Rightarrow> state \<Rightarrow> bool" where
  "drew s s' = (s' = s\<lparr>rng := rng s'\<rparr>)"

text \<open>The flags agree when \<^verbatim>\<open>paused\<close> implies \<^verbatim>\<open>typingActive\<close>; a status document
  agrees when its \<^verbatim>\<open>paused\<close> implies its \<^verbatim>\<open>running\<close>.  A state is \<open>sound\<close> when its
  flags agree and every status document answered so far does: the documents show the flags
  as they were whenever the dispatcher was asked, inside a session as well.\<close>

definition flagsOK :: "state \<Rightarrow> bool" where
  "flagsOK s = (paused s \<longrightarrow> typingActive s)"

definition docOK :: "response \<Rightarrow> bool" where
  "docOK r = (case r of Reply code \<Rightarrow> True | StatusDoc ble typed running pz \<Rightarrow> pz \<longrightarrow> running)"

definition sound :: "state \<Rightarrow> bool" where
  "sound s = (flagsOK s \<and> list_all docOK (replies s))"


text \<open>A \<^verbatim>\<open>/config\<close> request that names none of the fields read while running.\<close>

definition liveKeys :: "string list" where
  "liveKeys = [''think'', ''typos'', ''lpen'', ''lpc'', ''lpmin'', ''lpmax'', ''typoMax'',
     ''mistake'', ''holdMin'', ''holdMax'']"

definition startOnly :: "(string \<times> int) list \<Rightarrow> bool" where
  "startOnly args = list_all (\<lambda>k. map_of args k = None) liveKeys"

text \<open>Two things a call of the dispatcher may find are alike for a running session when
  they are the same, or when each is nothing or a \<^verbatim>\<open>/config\<close> request that names only
  fields read at session start.\<close>

fun blank :: "event \<Rightarrow> bool" where
  "blank Quiet = True"
| "blank (ConfigReq args) = startOnly args"
| "blank e = False"

fun isStart :: "event \<Rightarrow> bool" where
  "isStart (TypeReq body) = True"
| "isStart e = False"

definition alike :: "event \<Rightarrow> event \<Rightarrow> bool" where
  "alike e e' = (e = e' \<or> (blank e \<and> blank e'))"

text \<open>A list of events has no start request; and: every start request of the list comes
  before its first stop request.  Served inside a session, such a start request finds the
  session active and is answered 409 (line 711); a start request served after a stop is
  accepted and begins the next session inside the wait (lines 511 and 646).\<close>

definition noStart :: "event list \<Rightarrow> bool" where
  "noStart es = list_all (\<lambda>e. \<not> isStart e) es"

fun startsBusy :: "event list \<Rightarrow> bool" where
  "startsBusy [] = True"
| "startsBusy (StopReq # es) = noStart es"
| "startsBusy (e # es) = startsBusy es"






text \<open>The configuration after the events \<open>es\<close> have been served: only a
  \<^verbatim>\<open>/config\<close> request writes it (lines 687 to 706).\<close>

fun cfgAfter :: "event list \<Rightarrow> config \<Rightarrow> config" where
  "cfgAfter [] c = c"
| "cfgAfter (ConfigReq args # es) c = cfgAfter es (applyConfig args c)"
| "cfgAfter (e # es) c = cfgAfter es c"

text \<open>The events served between a state \<open>z\<close> and a later state \<open>s\<close>, and \<open>stored z s\<close>:
  what is pending in \<open>z\<close> is what was served since followed by what is pending in \<open>s\<close>, and
  the configuration of \<open>s\<close> is that of \<open>z\<close> with every update served since applied, in
  order.\<close>

definition served :: "state \<Rightarrow> state \<Rightarrow> event list" where
  "served z s = take (length (pending z) - length (pending s)) (pending z)"

definition stored :: "state \<Rightarrow> state \<Rightarrow> bool" where
  "stored z s = (pending z = served z s @ pending s \<and> cfg s = cfgAfter (served z s) (cfg z))"

text \<open>A pacing function for examples: every delay is 5 ms.\<close>

definition flat :: "pace_in \<Rightarrow> nat" where
  "flat p = 5"

section \<open>Text preprocessing\<close>

lemma preprocessLoop_space:
  "preprocessLoop 1 out cs = out @ map (\<lambda>c. if c = CR \<or> c = LF then SP else c) cs"
  by (induction cs arbitrary: out) simp_all

lemma preprocessLoop_remove:
  "m \<noteq> 1 \<Longrightarrow> preprocessLoop m out cs = out @ filter (\<lambda>c. c \<noteq> CR \<and> c \<noteq> LF) cs"
  by (induction cs arbitrary: out) simp_all

text \<open>
  C7.  Outside code mode, \<^verbatim>\<open>newlineMode\<close> 0 (keep) returns the input unchanged, 1 (space)
  maps every CR and every LF, each on its own, to one space, and 2 (remove) drops every CR
  and LF; all other characters pass through in order.  The input a, CR, LF, b becomes a,
  two spaces, b in mode 1.
\<close>

theorem C7_preprocessText:
  "preprocessText 0 inp = inp
   \<and> preprocessText 1 inp = map (\<lambda>c. if c = CR \<or> c = LF then SP else c) inp
   \<and> preprocessText 2 inp = filter (\<lambda>c. c \<noteq> CR \<and> c \<noteq> LF) inp
   \<and> preprocessText 1 [CHR ''a'', CR, LF, CHR ''b''] = ''a  b''"
  by (simp add: preprocessText_def preprocessLoop_space preprocessLoop_remove)

text \<open>The one-pass filter of the sketch is the two passes of the specification.\<close>

lemma codeFilter_acc:
  "codeFilter acc sol raw = acc @ stripLeading sol (normalizeNewlines raw)"
proof (induction acc sol raw rule: codeFilter.induct)
  case (1 acc sol)
  then show ?case by simp
next
  case (2 acc sol c cs)
  then show ?case by auto
qed

lemma stripLeading_clean:
  "k < length (stripLeading sol xs) \<Longrightarrow> isspace (stripLeading sol xs ! k) \<Longrightarrow>
   (if k = 0 then sol else stripLeading sol xs ! (k - 1) = LF) \<Longrightarrow> stripLeading sol xs ! k = LF"
proof (induction xs arbitrary: sol k)
  case Nil
  then show ?case by simp
next
  case (Cons c cs)
  show ?case
  proof (cases "c = LF")
    case True
    show ?thesis
    proof (cases k)
      case 0
      with True show ?thesis by simp
    next
      case (Suc j)
      with True Cons.prems Cons.IH [of j True] show ?thesis
        by (cases j) simp_all
    qed
  next
    case nl: False
    show ?thesis
    proof (cases "sol \<and> isspace c")
      case True
      with nl Cons.prems Cons.IH [of k sol] show ?thesis by (auto split: if_splits)
    next
      case False
      show ?thesis
      proof (cases k)
        case 0
        with nl False Cons.prems show ?thesis by auto
      next
        case (Suc j)
        with nl False Cons.prems Cons.IH [of j False] show ?thesis
          by (cases j) auto
      qed
    qed
  qed
qed

text \<open>
  C6, as amended.  In code mode the text typed is the input with every CRLF pair and every
  lone CR normalised to one LF and then scanned with the start-of-line flag; in the result
  the only whitespace character that can stand at position 0 or right after a line feed is
  a line feed itself (an empty line); and \<^verbatim>\<open>newlineMode\<close> is not read.
\<close>

theorem C6_codeFilter:
  "codeFilter [] True raw = stripLeading True (normalizeNewlines raw)
   \<and> (\<forall>k < length (codeFilter [] True raw).
        isspace (codeFilter [] True raw ! k) \<and> (k = 0 \<or> codeFilter [] True raw ! (k - 1) = LF)
        \<longrightarrow> codeFilter [] True raw ! k = LF)
   \<and> (codeMode c \<longrightarrow> sessionText (c\<lparr>newlineMode := m\<rparr>) raw = codeFilter [] True raw)"
proof (intro conjI allI impI)
  show eq: "codeFilter [] True raw = stripLeading True (normalizeNewlines raw)"
    by (simp add: codeFilter_acc)
  show "sessionText (c\<lparr>newlineMode := m\<rparr>) raw = codeFilter [] True raw" if "codeMode c"
    using that by (simp add: sessionText_def)
  fix k
  assume k: "k < length (codeFilter [] True raw)"
    and h: "isspace (codeFilter [] True raw ! k) \<and> (k = 0 \<or> codeFilter [] True raw ! (k - 1) = LF)"
  show "codeFilter [] True raw ! k = LF"
    using stripLeading_clean [of k True "normalizeNewlines raw"] k h
    unfolding eq by (cases "k = 0") auto
qed

text \<open>The instance of C6 at the input space, a, CR, LF, LF, space, b: position 2 of the
  output follows a line feed and is a line feed.\<close>

theorem C6_witness:
  "codeFilter [] True [SP, CHR ''a'', CR, LF, LF, SP, CHR ''b''] = [CHR ''a'', LF, LF, CHR ''b'']
   \<and> codeFilter [] True [SP, CHR ''a'', CR, LF, LF, SP, CHR ''b''] ! 2 = LF
   \<and> sessionText (defaults\<lparr>codeMode := True, newlineMode := 2\<rparr>) [SP, CHR ''a'', CR, LF] = [CHR ''a'', LF]"
proof -
  let ?raw = "[SP, CHR ''a'', CR, LF, LF, SP, CHR ''b'']"
  have v: "codeFilter [] True ?raw = [CHR ''a'', LF, LF, CHR ''b'']"
    by (simp add: isspace_def)
  have "codeFilter [] True ?raw ! 2 = LF"
    using C6_codeFilter [of ?raw defaults 2, THEN conjunct2, THEN conjunct1, rule_format, of 2]
    by (simp add: isspace_def)
  moreover have "sessionText (defaults\<lparr>codeMode := True, newlineMode := 2\<rparr>) [SP, CHR ''a'', CR, LF] = [CHR ''a'', LF]"
    using C6_codeFilter [of "[SP, CHR ''a'', CR, LF]" "defaults\<lparr>codeMode := True\<rparr>" 2]
    by (simp add: isspace_def)
  ultimately show ?thesis using v by simp
qed

text \<open>C6 as the claim states it fails: for the input LF, space, x the output starts with a
  line feed, which is whitespace.\<close>

theorem C6_counterexample:
  "\<not> (\<forall>raw. \<forall>k < length (codeFilter [] True raw).
        (k = 0 \<or> codeFilter [] True raw ! (k - 1) = LF) \<longrightarrow> \<not> isspace (codeFilter [] True raw ! k))"
proof
  assume a: "\<forall>raw. \<forall>k < length (codeFilter [] True raw).
        (k = 0 \<or> codeFilter [] True raw ! (k - 1) = LF) \<longrightarrow> \<not> isspace (codeFilter [] True raw ! k)"
  have "\<not> isspace (codeFilter [] True [LF, SP, CHR ''x''] ! 0)"
    using a [rule_format, of 0 "[LF, SP, CHR ''x'']"] by simp
  then show False by (simp add: isspace_def)
qed

section \<open>Mistake chunks\<close>

text \<open>
  C5.  With \<^verbatim>\<open>typoMaxChars\<close> 2 and five characters left, the chunk length is 1 whatever
  \<^verbatim>\<open>random(0, typoMaxChars-1)\<close> draws: the length 2 is never reached.
\<close>

theorem C5_len_never_max: "typoLen 2 5 (random_of 0 (2 - 1) raw) = 1"
  by (simp add: typoLen_def random_of_def clampInt_def)

text \<open>The same for every \<^verbatim>\<open>typoMaxChars\<close> from 2 on: the length stays below it.  The
  length is always at least 1 and at most what is left.\<close>

lemma random_of_range: "lo < hi \<Longrightarrow> lo \<le> random_of lo hi raw \<and> random_of lo hi raw < hi"
proof -
  assume a: "lo < hi"
  then have "0 < nat (hi - lo)" by simp
  then have "raw mod nat (hi - lo) < nat (hi - lo)" by (rule mod_less_divisor)
  then have "int (raw mod nat (hi - lo)) < hi - lo" using a by linarith
  with a show ?thesis by (simp add: random_of_def)
qed

lemma typoLen_range:
  "1 \<le> tmax \<Longrightarrow> 1 \<le> r \<Longrightarrow>
   1 \<le> typoLen tmax r (random_of 0 (tmax - 1) raw)
   \<and> typoLen tmax r (random_of 0 (tmax - 1) raw) \<le> min tmax r"
  by (auto simp: typoLen_def clampInt_def Let_def)

lemma typoLen_below_max:
  "2 \<le> tmax \<Longrightarrow> typoLen tmax r (random_of 0 (tmax - 1) raw) < tmax"
  using random_of_range [of 0 "tmax - 1" raw]
  by (auto simp: typoLen_def clampInt_def Let_def)

section \<open>Evaluating the engine\<close>

text \<open>Rewrite rules that run the engine on concrete inputs inside the simplifier.\<close>

lemma pauseWait_num:
  "pauseWait hc (numeral k) s =
     (if paused s \<and> typingActive s
      then hc s \<bind> (\<lambda>s1. pauseWait hc (pred_numeral k) (delay 1 s1))
      else Some s)"
  by (simp add: numeral_eq_Suc)

lemma coopWait_num:
  "coopWait hc (numeral k) start ms s =
     (if typingActive s \<and> clock s - start < ms
      then hc s \<bind> (\<lambda>s1. pauseWait hc (pred_numeral k) s1 \<bind>
             (\<lambda>s2. coopWait hc (pred_numeral k) start ms (delay 1 s2)))
      else Some s)"
  by (simp add: numeral_eq_Suc)

lemma typeLoop_num:
  "typeLoop hc (numeral k) ses mc i s =
     (if \<not> (i < length (s_text ses) \<and> typingActive s) then Some s
      else typeStep hc (pred_numeral k) ses mc i s \<bind>
           (\<lambda>(r, s1). case r of None \<Rightarrow> Some s1
                        | Some (mc', i') \<Rightarrow> typeLoop hc (pred_numeral k) ses mc' (Suc i') s1))"
  by (simp add: numeral_eq_Suc)

lemma char_of_121: "char_of (121::nat) = CHR ''y''"
  by code_simp

lemmas run_simps =
  pauseWait_num coopWait_num typeLoop_num coopDelay_def dispatch_def serve_def handleType_def
  typeLikeHuman_def typeStep_def afterChar_def typoChunk_def beginSession_def nextDelay_def
  longPauseDraw_def beginTypo_def plainWait_def thinkDraw_def sessionText_def
  preprocessText_def handleStop_def handlePause_def handleConfig_def handleStatus_def
  applyConfig_def setInt_def setBool_def configKeys_def reply_def delay_def sendChar_def
  sendBackspace_def random_def random_of_def typoLen_def clampInt_def charAt_def
  isPunct_def alnum_def isupper_def isspace_def toupper_def boot_def defaults_def flat_def
  keys_def Let_def







section \<open>Start requests\<close>

text \<open>
  C9, as amended.  \<^verbatim>\<open>handleType\<close> rejects a start request with 409 (Busy) when a session
  is active, else with 400 (BadRequest) when the body is empty, else with 503
  (ServiceUnavailable) when the sink is disconnected: the precedence is Busy, BadRequest,
  ServiceUnavailable.  A rejection returns at once and changes nothing but the list of
  answers.
\<close>

theorem C9_handleType_rejects:
  "(typingActive s \<longrightarrow> handleType hc n body s = Some (reply 409 s))
   \<and> (\<not> typingActive s \<and> body = [] \<longrightarrow> handleType hc n body s = Some (reply 400 s))
   \<and> (\<not> typingActive s \<and> body \<noteq> [] \<and> \<not> link s \<longrightarrow> handleType hc n body s = Some (reply 503 s))
   \<and> reply code s = s\<lparr>replies := replies s @ [Reply code]\<rparr>"
  by (simp add: handleType_def reply_def)

text \<open>The three rejections of C9 at the boot state with the link down.\<close>

theorem C9_witness:
  "handleType (handleClient 1 1) 1 ''ab'' ((boot flat False [] [])\<lparr>typingActive := True\<rparr>)
     = Some (reply 409 ((boot flat False [] [])\<lparr>typingActive := True\<rparr>))
   \<and> handleType (handleClient 1 1) 1 [] (boot flat False [] []) = Some (reply 400 (boot flat False [] []))
   \<and> handleType (handleClient 1 1) 1 ''ab'' (boot flat False [] []) = Some (reply 503 (boot flat False [] []))"
  using C9_handleType_rejects [of "(boot flat False [] [])\<lparr>typingActive := True\<rparr>" "handleClient 1 1" 1 "''ab''"]
    C9_handleType_rejects [of "boot flat False [] []" "handleClient 1 1" 1 "[]"]
    C9_handleType_rejects [of "boot flat False [] []" "handleClient 1 1" 1 "''ab''"]
  by (simp add: boot_def)

text \<open>C9 as the claim states it fails: idle, with the link down and an empty body, the answer
  is 400 and not 503.\<close>

theorem C9_counterexample:
  "handleType (handleClient 1 1) 1 [] (boot flat False [] []) = Some (reply 400 (boot flat False [] []))
   \<and> handleType (handleClient 1 1) 1 [] (boot flat False [] []) \<noteq> Some (reply 503 (boot flat False [] []))"
  by (simp add: handleType_def boot_def reply_def)

section \<open>What the waits leave alone\<close>

lemma drew_refl: "drew s s"
  by (simp add: drew_def)

lemma drew_trans: "drew s t \<Longrightarrow> drew t u \<Longrightarrow> drew s u"
  by (cases s; cases t; cases u) (simp add: drew_def)

lemma drew_fields:
  "drew s s' \<Longrightarrow> cfg s' = cfg s \<and> sessionSpeedPct s' = sessionSpeedPct s
     \<and> typingActive s' = typingActive s \<and> paused s' = paused s \<and> typedChars s' = typedChars s
     \<and> clock s' = clock s \<and> link s' = link s \<and> pending s' = pending s
     \<and> sampler s' = sampler s \<and> sent s' = sent s \<and> replies s' = replies s"
  by (cases s; cases s') (simp add: drew_def)

lemma random_drew: "random lo hi s = (v, s') \<Longrightarrow> drew s s'"
  by (auto simp: random_def drew_def split: if_splits list.splits)

lemma createMistakeChunk_drew:
  "createMistakeChunk c k acc s = (w, s') \<Longrightarrow> drew s s' \<and> length w = length acc + k"
proof (induction k arbitrary: acc s)
  case 0
  then show ?case by (auto simp: drew_refl)
next
  case (Suc k)
  obtain d s1 where r1: "random 0 26 s = (d, s1)" by (cases "random 0 26 s")
  obtain up s2 where r2: "(if isupper c then (let (r, t) = random 0 2 s1 in (r \<noteq> 0, t)) else (False, s1)) = (up, s2)"
    by (cases "(if isupper c then (let (r, t) = random 0 2 s1 in (r \<noteq> 0, t)) else (False, s1))")
  from r2 have "drew s1 s2"
    by (auto simp: drew_refl split: if_splits prod.splits dest: random_drew)
  with r1 have d2: "drew s s2" by (auto dest: random_drew intro: drew_trans)
  from Suc.prems r1 r2
  have "createMistakeChunk c k (acc @ [if up then toupper (char_of (97 + nat d)) else char_of (97 + nat d)]) s2 = (w, s')"
    by (simp add: Let_def)
  from Suc.IH [OF this] d2 show ?case by (auto intro: drew_trans)
qed











section \<open>Mistake chunks: what is typed\<close>





text \<open>
  C4.  With \<^verbatim>\<open>mistakePercent\<close> 100 every draw of line 467 succeeds, and both characters
  of ab are alphanumeric, yet only the first gets a mistake chunk: \<^verbatim>\<open>mistakesCurrently\<close>
  is raised after the chunk is complete and never lowered, so it stays at
  \<^verbatim>\<open>maxSimultaneousErrors\<close> (1) for the rest of the session.
\<close>

theorem C4_one_mistake_per_session:
  "map_option keys
     (handleClient (Suc (Suc 0)) 300 ((boot flat True [0, 0, 0, 0, 0, 0, 24] [TypeReq ''ab''])
        \<lparr>cfg := defaults\<lparr>mistakePercent := 100\<rparr>\<rparr>))
   = Some [Key CHR ''y'', Backspace, Key CHR ''a'', Key CHR ''b'']"
  by (simp add: run_simps char_of_121)

section \<open>The link check\<close>

text \<open>
  C8, as amended.  The connection status is read when \<^verbatim>\<open>typeLikeHuman\<close> starts and at
  the top of every iteration of the playback loop; found down there, the session ends with
  nothing more sent and the state as it is.
\<close>

theorem C8_link_checked:
  "\<not> link s \<Longrightarrow>
     typeLikeHuman hc n rawText s = Some s
     \<and> typeStep hc n ses mc i s = Some (None, s)
     \<and> typeLoop hc (Suc n) ses mc i s = Some s"
  by (simp add: typeLikeHuman_def typeStep_def)

text \<open>C8 at the boot state with the link down.\<close>

theorem C8_witness:
  "\<not> link (boot flat False [] [])
   \<and> typeLikeHuman (handleClient 1 1) 1 ''ab'' (boot flat False [] []) = Some (boot flat False [] [])
   \<and> typeLoop (handleClient 1 1) (Suc 1) \<lparr> s_text = ''ab'', s_code = False, s_strict = False,
        s_wpm = 100, s_speed = 0, s_jitter = 12, s_startMs = 0 \<rparr> 0 0
        ((boot flat False [] [])\<lparr>typingActive := True\<rparr>)
       = Some ((boot flat False [] [])\<lparr>typingActive := True\<rparr>)"
proof -
  have a: "\<not> link (boot flat False [] [])" and b: "\<not> link ((boot flat False [] [])\<lparr>typingActive := True\<rparr>)"
    by (simp_all add: boot_def)
  from C8_link_checked [OF a] C8_link_checked [OF b] a show ?thesis by blast
qed

text \<open>C8 as the claim states it fails: the link goes down during the hold of the decoy, and
  the backspace and the correct character are still sent; only the next iteration sees it.\<close>

theorem C8_counterexample:
  "map_option sent
     (handleClient (Suc (Suc 0)) 300 ((boot flat True [0, 0, 0, 0, 0, 0, 24] [TypeReq ''ab'', Link False])
        \<lparr>cfg := defaults\<lparr>mistakePercent := 100\<rparr>\<rparr>))
   = Some [(Key CHR ''y'', True), (Backspace, False), (Key CHR ''a'', False)]"
  by (simp add: run_simps char_of_121)

section \<open>Pauses and waits\<close>

text \<open>
  C3.  A wait of 5 ms, paused at its first service and resumed 7 ms later, ends 1 ms after
  the resume, at 8 ms: the paused time has counted against the wait.  Unpaused, it ends at
  5 ms.
\<close>

theorem C3_pause_counts_against_wait:
  "map_option (\<lambda>t. unat (clock t))
     (coopDelay (handleClient (Suc 0) 20) 20 5
        ((boot flat True [] [PauseReq, Quiet, Quiet, Quiet, Quiet, Quiet, Quiet, PauseReq])
           \<lparr>typingActive := True\<rparr>))
   = Some 8
   \<and> map_option (\<lambda>t. unat (clock t))
     (coopDelay (handleClient (Suc 0) 20) 20 5 ((boot flat True [] [])\<lparr>typingActive := True\<rparr>))
   = Some 5"
  by (simp add: run_simps)


section \<open>The pause flag\<close>

text \<open>Every function of the engine keeps a sound state sound, whatever the dispatcher
  does, as long as the dispatcher keeps it so.\<close>

lemma sound_cong:
  "paused s' = paused s \<Longrightarrow> typingActive s' = typingActive s \<Longrightarrow> replies s' = replies s \<Longrightarrow>
   sound s' = sound s"
  by (simp add: sound_def flagsOK_def)

lemma sound_drew: "drew s s' \<Longrightarrow> sound s' = sound s"
  by (rule sound_cong) (simp_all add: drew_fields)

lemma sound_simps [simp]:
  "sound (sendChar c s) = sound s"
  "sound (sendBackspace s) = sound s"
  "sound (delay k s) = sound s"
  "sound (s\<lparr>typedChars := tc\<rparr>) = sound s"
  by (simp_all add: sound_def flagsOK_def sendChar_def sendBackspace_def delay_def)

lemma nextDelay_drew: "nextDelay ses i s = (nd, s') \<Longrightarrow> drew s s'"
  by (auto simp: nextDelay_def Let_def split: prod.splits dest!: random_drew intro: drew_trans)

lemma longPauseDraw_drew: "longPauseDraw ses c s = (b, s') \<Longrightarrow> drew s s'"
  by (auto simp: longPauseDraw_def Let_def drew_refl split: prod.splits if_splits dest!: random_drew)

lemma beginTypo_drew: "beginTypo ses c mc s = (b, s') \<Longrightarrow> drew s s'"
  by (auto simp: beginTypo_def Let_def drew_refl split: prod.splits if_splits dest!: random_drew)

lemma thinkDraw_drew: "thinkDraw ses c s = (b, s') \<Longrightarrow> drew s s'"
  by (auto simp: thinkDraw_def Let_def drew_refl split: prod.splits if_splits dest!: random_drew)

lemma plainWait_drew: "plainWait ses c nd s = (ms, s') \<Longrightarrow> drew s s'"
proof -
  assume a: "plainWait ses c nd s = (ms, s')"
  obtain e1 s1 where r1: "(if \<not> s_strict ses \<and> c = SP then random 40 140 s else (0, s)) = (e1, s1)"
    by (cases "(if \<not> s_strict ses \<and> c = SP then random 40 140 s else (0, s))")
  obtain e2 s2 where r2: "(if \<not> s_strict ses \<and> extraPunctPause (cfg s1) \<and> isPunct c
                      then random 80 220 s1 else (0, s1)) = (e2, s2)"
    by (cases "(if \<not> s_strict ses \<and> extraPunctPause (cfg s1) \<and> isPunct c
                      then random 80 220 s1 else (0, s1))")
  obtain e3 s3 where r3: "(if \<not> s_strict ses \<and> (c = LF \<or> c = CR) then random 120 320 s2 else (0, s2)) = (e3, s3)"
    by (cases "(if \<not> s_strict ses \<and> (c = LF \<or> c = CR) then random 120 320 s2 else (0, s2))")
  obtain h s4 where r4: "random (holdMinMs (cfg s3)) (holdMaxMs (cfg s3) + 1) s3 = (h, s4)"
    by (cases "random (holdMinMs (cfg s3)) (holdMaxMs (cfg s3) + 1) s3")
  from r1 have d1: "drew s s1" by (auto simp: drew_refl split: if_splits dest: random_drew)
  from r2 have d2: "drew s1 s2" by (auto simp: drew_refl split: if_splits dest: random_drew)
  from r3 have d3: "drew s2 s3" by (auto simp: drew_refl split: if_splits dest: random_drew)
  from r4 have d4: "drew s3 s4" by (rule random_drew)
  from a r1 r2 r3 r4 have "s' = s4" by (simp add: plainWait_def Let_def)
  with d1 d2 d3 d4 show ?thesis by (blast intro: drew_trans)
qed


lemma pauseWait_sound:
  assumes hc: "\<And>s s'. sound s \<Longrightarrow> hc s = Some s' \<Longrightarrow> sound s'"
  shows "sound s \<Longrightarrow> pauseWait hc n s = Some s' \<Longrightarrow> sound s'"
proof (induction n arbitrary: s)
  case 0
  then show ?case by simp
next
  case (Suc n)
  show ?case
  proof (cases "paused s \<and> typingActive s")
    case True
    with Suc.prems(2) obtain s1 where h: "hc s = Some s1"
      and r: "pauseWait hc n (delay 1 s1) = Some s'"
      by (auto simp: bind_eq_Some_conv)
    from hc [OF Suc.prems(1) h] have "sound (delay 1 s1)" by simp
    from Suc.IH [OF this r] show ?thesis .
  next
    case False
    with Suc.prems show ?thesis by auto
  qed
qed

lemma coopWait_sound:
  assumes hc: "\<And>s s'. sound s \<Longrightarrow> hc s = Some s' \<Longrightarrow> sound s'"
  shows "sound s \<Longrightarrow> coopWait hc n start ms s = Some s' \<Longrightarrow> sound s'"
proof (induction n arbitrary: s)
  case 0
  then show ?case by simp
next
  case (Suc n)
  show ?case
  proof (cases "typingActive s \<and> clock s - start < ms")
    case True
    with Suc.prems(2) obtain s1 s2 where h: "hc s = Some s1"
      and p: "pauseWait hc n s1 = Some s2"
      and r: "coopWait hc n start ms (delay 1 s2) = Some s'"
      by (auto simp: bind_eq_Some_conv)
    from pauseWait_sound [OF hc hc [OF Suc.prems(1) h] p] have "sound (delay 1 s2)"
      by simp
    from Suc.IH [OF this r] show ?thesis .
  next
    case False
    with Suc.prems show ?thesis by auto
  qed
qed

lemma coopDelay_sound:
  assumes hc: "\<And>s s'. sound s \<Longrightarrow> hc s = Some s' \<Longrightarrow> sound s'"
  shows "sound s \<Longrightarrow> coopDelay hc n ms s = Some s' \<Longrightarrow> sound s'"
  unfolding coopDelay_def by (rule coopWait_sound [OF hc])

lemma sendCharsWithHold_sound:
  assumes hc: "\<And>s s'. sound s \<Longrightarrow> hc s = Some s' \<Longrightarrow> sound s'"
  shows "sound s \<Longrightarrow> sendCharsWithHold hc n seq a b s = Some s' \<Longrightarrow> sound s'"
proof (induction seq arbitrary: s)
  case Nil
  then show ?case by simp
next
  case (Cons ch rest)
  show ?case
  proof (cases "typingActive s")
    case False
    with Cons.prems show ?thesis by simp
  next
    case True
    obtain hold s1 where r: "random a (b + 1) (sendChar ch s) = (hold, s1)"
      by (cases "random a (b + 1) (sendChar ch s)")
    with Cons.prems(2) True obtain s2 where
      d: "coopDelay hc n (word_of_int hold) s1 = Some s2"
      and k: "sendCharsWithHold hc n rest a b s2 = Some s'"
      by (auto simp: bind_eq_Some_conv)
    from random_drew [OF r] Cons.prems(1) have "sound s1" by (simp add: sound_drew)
    from Cons.IH [OF coopDelay_sound [OF hc this d] k] show ?thesis .
  qed
qed

lemma backspaces_sound:
  assumes hc: "\<And>s s'. sound s \<Longrightarrow> hc s = Some s' \<Longrightarrow> sound s'"
  shows "sound s \<Longrightarrow> backspaces hc n todo s = Some s' \<Longrightarrow> sound s'"
proof (induction todo arbitrary: s)
  case 0
  then show ?case by simp
next
  case (Suc todo)
  show ?case
  proof (cases "typingActive s")
    case False
    with Suc.prems show ?thesis by simp
  next
    case True
    obtain d s1 where r: "random 20 60 (sendBackspace s) = (d, s1)"
      by (cases "random 20 60 (sendBackspace s)")
    with Suc.prems(2) True obtain s2 where
      w: "coopDelay hc n (word_of_int d) s1 = Some s2"
      and k: "backspaces hc n todo s2 = Some s'"
      by (auto simp: bind_eq_Some_conv)
    from random_drew [OF r] Suc.prems(1) have "sound s1" by (simp add: sound_drew)
    from Suc.IH [OF coopDelay_sound [OF hc this w] k] show ?thesis .
  qed
qed

lemma retype_sound:
  assumes hc: "\<And>s s'. sound s \<Longrightarrow> hc s = Some s' \<Longrightarrow> sound s'"
  shows "sound s \<Longrightarrow> retype hc n ses nd k todo s = Some s' \<Longrightarrow> sound s'"
proof (induction todo arbitrary: k s)
  case 0
  then show ?case by simp
next
  case (Suc todo)
  show ?case
  proof (cases "typingActive s")
    case False
    with Suc.prems show ?thesis by simp
  next
    case True
    define s0 where "s0 = sendChar (charAt (s_text ses) k) s"
    obtain h s1 where r: "random (holdMinMs (cfg s0)) (holdMaxMs (cfg s0) + 1) s0 = (h, s1)"
      by (cases "random (holdMinMs (cfg s0)) (holdMaxMs (cfg s0) + 1) s0")
    with Suc.prems(2) True obtain s2 where
      w: "coopDelay hc n (word_of_int (max (nd div 2) h)) s1 = Some s2"
      and t: "retype hc n ses nd (Suc k) todo s2 = Some s'"
      by (auto simp: Let_def s0_def bind_eq_Some_conv)
    from random_drew [OF r] Suc.prems(1) have "sound s1" by (simp add: sound_drew s0_def)
    from Suc.IH [OF coopDelay_sound [OF hc this w] t] show ?thesis .
  qed
qed

lemma typoChunk_sound:
  assumes hc: "\<And>s s'. sound s \<Longrightarrow> hc s = Some s' \<Longrightarrow> sound s'"
    and s: "sound s" and r: "typoChunk hc n ses nd c i s = Some (brk, len, s')"
  shows "sound s'"
proof -
  obtain d s1 where r1: "random 0 (typoMaxChars (cfg s) - 1) s = (d, s1)"
    by (cases "random 0 (typoMaxChars (cfg s) - 1) s")
  let ?len0 = "typoLen (typoMaxChars (cfg s1)) (int (length (s_text ses) - i)) d"
  obtain wrong s2 where w: "createMistakeChunk c (nat ?len0) [] s1 = (wrong, s2)"
    by (cases "createMistakeChunk c (nat ?len0) [] s1")
  from r r1 w obtain s3 s4 where
    a: "sendCharsWithHold hc n wrong (holdMinMs (cfg s2)) (holdMaxMs (cfg s2)) s2 = Some s3"
    and b: "coopDelay hc n (word_of_int (max 40 nd)) s3 = Some s4"
    and rest: "(if \<not> typingActive s4 then Some (True, ?len0, s4)
                else backspaces hc n (nat ?len0) s4 \<bind>
                     (\<lambda>s5. retype hc n ses nd i (nat ?len0) s5 \<bind>
                     (\<lambda>s6. Some (False, ?len0, s6)))) = Some (brk, len, s')"
    by (simp add: typoChunk_def Let_def bind_eq_Some_conv) blast
  from random_drew [OF r1] createMistakeChunk_drew [OF w] have "drew s s2"
    by (blast intro: drew_trans)
  with s have "sound s2" by (simp add: sound_drew)
  from coopDelay_sound [OF hc sendCharsWithHold_sound [OF hc this a] b] have s4: "sound s4" .
  show ?thesis
  proof (cases "typingActive s4")
    case False
    with rest s4 show ?thesis by simp
  next
    case True
    with rest obtain s5 where
      e: "backspaces hc n (nat ?len0) s4 = Some s5"
      and f: "retype hc n ses nd i (nat ?len0) s5 = Some s'"
      by (auto simp: bind_eq_Some_conv)
    from retype_sound [OF hc backspaces_sound [OF hc s4 e] f] show ?thesis .
  qed
qed

lemma afterChar_sound:
  assumes hc: "\<And>s s'. sound s \<Longrightarrow> hc s = Some s' \<Longrightarrow> sound s'"
    and s: "sound s" and r: "afterChar hc n ses i c s = Some (brk, s')"
  shows "sound s'"
proof -
  obtain tp s1 where t: "thinkDraw ses c s = (tp, s1)" by (cases "thinkDraw ses c s")
  from thinkDraw_drew [OF t] s have s1: "sound s1" by (simp add: sound_drew)
  from r t obtain s2 where
    w: "(if tp then (let (d, t) = random 400 1000 s1 in coopDelay hc n (word_of_int d) t)
         else Some s1) = Some s2"
    and rest: "(if tp \<and> \<not> typingActive s2 then Some (True, s2)
                else hc (s2\<lparr>typedChars := Suc i\<rparr>) \<bind> (\<lambda>s3. Some (False, s3))) = Some (brk, s')"
    by (auto simp: afterChar_def bind_eq_Some_conv)
  have s2: "sound s2"
  proof (cases tp)
    case False
    with w s1 show ?thesis by simp
  next
    case True
    obtain d t where rd: "random 400 1000 s1 = (d, t)" by (cases "random 400 1000 s1")
    with w True have cd: "coopDelay hc n (word_of_int d) t = Some s2" by simp
    from random_drew [OF rd] s1 have "sound t" by (simp add: sound_drew)
    from coopDelay_sound [OF hc this cd] show ?thesis .
  qed
  show ?thesis
  proof (cases "tp \<and> \<not> typingActive s2")
    case True
    with rest s2 show ?thesis by simp
  next
    case False
    with rest have "hc (s2\<lparr>typedChars := Suc i\<rparr>) = Some s'"
      by (auto simp: bind_eq_Some_conv)
    with s2 show ?thesis by (auto dest: hc [rotated])
  qed
qed


lemma typeStep_sound:
  assumes hc: "\<And>s s'. sound s \<Longrightarrow> hc s = Some s' \<Longrightarrow> sound s'"
    and s: "sound s" and r: "typeStep hc n ses mc i s = Some (res, s')"
  shows "sound s'"
proof (cases "link s")
  case False
  with r s show ?thesis by (simp add: typeStep_def)
next
  case True
  let ?c = "charAt (s_text ses) i"
  from r True obtain s1 where p: "pauseWait hc n s = Some s1"
    by (auto simp: typeStep_def bind_eq_Some_conv)
  obtain nd s2 where nx: "nextDelay ses i s1 = (nd, s2)" by (cases "nextDelay ses i s1")
  from pauseWait_sound [OF hc s p] nextDelay_drew [OF nx] have s2: "sound s2"
    by (simp add: sound_drew)
  show ?thesis
  proof (cases "s_code ses \<and> ?c = LF")
    case True
    with r \<open>link s\<close> p nx obtain s3 where
      w: "coopDelay hc n (word_of_int nd) (sendChar LF s2) = Some s3"
      and e: "s' = s3\<lparr>typedChars := Suc i\<rparr>"
      by (auto simp: typeStep_def bind_eq_Some_conv)
    from s2 have "sound (sendChar LF s2)" by simp
    from coopDelay_sound [OF hc this w] e show ?thesis by simp
  next
    case nl: False
    obtain lp s3 where l: "longPauseDraw ses ?c s2 = (lp, s3)"
      by (cases "longPauseDraw ses ?c s2")
    from longPauseDraw_drew [OF l] s2 have s3: "sound s3" by (simp add: sound_drew)
    from r \<open>link s\<close> p nx nl l obtain s4 where
      w4: "(if lp then (let (d, t) = random (longPauseMinMs (cfg s3)) (longPauseMaxMs (cfg s3) + 1) s3
                       in coopDelay hc n (word_of_int d) t)
            else Some s3) = Some s4"
      and rest4: "(if lp \<and> \<not> typingActive s4 then Some (None, s4)
          else (let (bt, s5) = beginTypo ses ?c mc s4 in
            if bt
            then typoChunk hc n ses nd ?c i s5 \<bind>
                 (\<lambda>(brk, len, s6). if brk then Some (None, s6)
                    else (let i' = nat (int i + (len - 1)) in
                          afterChar hc n ses i' ?c s6 \<bind>
                          (\<lambda>(brk', s7). Some (if brk' then None else Some (mc + 1, i'), s7))))
            else (let (ms, s6) = plainWait ses ?c nd (sendChar ?c s5) in
                  coopDelay hc n ms s6 \<bind>
                  (\<lambda>s7. afterChar hc n ses i ?c s7 \<bind>
                  (\<lambda>(brk', s8). Some (if brk' then None else Some (mc, i), s8)))))) = Some (res, s')"
      by (auto simp: typeStep_def bind_eq_Some_conv Let_def)
    have s4: "sound s4"
    proof (cases lp)
      case False
      with w4 s3 show ?thesis by simp
    next
      case True
      obtain d t where rd: "random (longPauseMinMs (cfg s3)) (longPauseMaxMs (cfg s3) + 1) s3 = (d, t)"
        by (cases "random (longPauseMinMs (cfg s3)) (longPauseMaxMs (cfg s3) + 1) s3")
      with w4 True have cd: "coopDelay hc n (word_of_int d) t = Some s4" by simp
      from random_drew [OF rd] s3 have "sound t" by (simp add: sound_drew)
      from coopDelay_sound [OF hc this cd] show ?thesis .
    qed
    show ?thesis
    proof (cases "lp \<and> \<not> typingActive s4")
      case True
      with rest4 s4 show ?thesis by simp
    next
      case go: False
      obtain bt s5 where b: "beginTypo ses ?c mc s4 = (bt, s5)"
        by (cases "beginTypo ses ?c mc s4")
      from beginTypo_drew [OF b] s4 have s5: "sound s5" by (simp add: sound_drew)
      show ?thesis
      proof (cases bt)
        case True
        with rest4 go b obtain brk len s6 where
          tc: "typoChunk hc n ses nd ?c i s5 = Some (brk, len, s6)"
          and rest6: "(if brk then Some (None, s6)
                    else (let i' = nat (int i + (len - 1)) in
                          afterChar hc n ses i' ?c s6 \<bind>
                          (\<lambda>(brk', s7). Some (if brk' then None else Some (mc + 1, i'), s7))))
                = Some (res, s')"
          by (auto simp: bind_eq_Some_conv)
        from typoChunk_sound [OF hc s5 tc] have s6: "sound s6" .
        show ?thesis
        proof (cases brk)
          case True
          with rest6 s6 show ?thesis by simp
        next
          case False
          with rest6 obtain brk' where
            "afterChar hc n ses (nat (int i + (len - 1))) ?c s6 = Some (brk', s')"
            by (auto simp: bind_eq_Some_conv Let_def)
          from afterChar_sound [OF hc s6 this] show ?thesis .
        qed
      next
        case False
        obtain ms s6 where pw: "plainWait ses ?c nd (sendChar ?c s5) = (ms, s6)"
          by (cases "plainWait ses ?c nd (sendChar ?c s5)")
        from plainWait_drew [OF pw] s5 have s6: "sound s6" by (simp add: sound_drew)
        from rest4 go b False pw obtain s7 brk' where
          cd: "coopDelay hc n ms s6 = Some s7"
          and ac: "afterChar hc n ses i ?c s7 = Some (brk', s')"
          by (auto simp: bind_eq_Some_conv)
        from afterChar_sound [OF hc coopDelay_sound [OF hc s6 cd] ac] show ?thesis .
      qed
    qed
  qed
qed

lemma typeLoop_sound:
  assumes hc: "\<And>s s'. sound s \<Longrightarrow> hc s = Some s' \<Longrightarrow> sound s'"
  shows "sound s \<Longrightarrow> typeLoop hc n ses mc i s = Some s' \<Longrightarrow> sound s'"
proof (induction n arbitrary: mc i s)
  case 0
  then show ?case by simp
next
  case (Suc n)
  show ?case
  proof (cases "i < length (s_text ses) \<and> typingActive s")
    case False
    with Suc.prems show ?thesis by auto
  next
    case True
    with Suc.prems(2) obtain res s1 where
      st: "typeStep hc n ses mc i s = Some (res, s1)"
      and rest: "(case res of None \<Rightarrow> Some s1
                  | Some (mc', i') \<Rightarrow> typeLoop hc n ses mc' (Suc i') s1) = Some s'"
      by (auto simp: bind_eq_Some_conv)
    from typeStep_sound [OF hc Suc.prems(1) st] have s1: "sound s1" .
    show ?thesis
    proof (cases res)
      case None
      with rest s1 show ?thesis by simp
    next
      case (Some a)
      obtain mc' i' where "a = (mc', i')" by (cases a)
      with Some rest have "typeLoop hc n ses mc' (Suc i') s1 = Some s'" by simp
      from Suc.IH [OF s1 this] show ?thesis .
    qed
  qed
qed

text \<open>However a session is entered and however it ends, it leaves both flags cleared.\<close>

lemma typeLikeHuman_ends_idle:
  assumes r: "typeLikeHuman hc n rawText s = Some s'"
    and idle: "\<not> typingActive s" "\<not> paused s"
  shows "\<not> typingActive s' \<and> \<not> paused s'"
proof (cases "link s")
  case False
  with r idle show ?thesis by (simp add: typeLikeHuman_def)
next
  case True
  obtain d s0 where r0: "random (- 10) 11 s = (d, s0)" by (cases "random (- 10) 11 s")
  define s1 where "s1 = s0\<lparr>sessionSpeedPct := d\<rparr>"
  from random_drew [OF r0] idle have i1: "\<not> typingActive s1" "\<not> paused s1"
    by (simp_all add: s1_def drew_fields)
  show ?thesis
  proof (cases "sessionText (cfg s1) rawText = []")
    case True
    with r \<open>link s\<close> r0 have "s' = s1" by (simp add: typeLikeHuman_def s1_def Let_def)
    with i1 show ?thesis by simp
  next
    case False
    obtain ses s2 where b: "beginSession (sessionText (cfg s1) rawText) (codeMode (cfg s1)) s1 = (ses, s2)"
      by (cases "beginSession (sessionText (cfg s1) rawText) (codeMode (cfg s1)) s1")
    from r \<open>link s\<close> r0 False b obtain s3 where
      fin: "(let (d', s4) = random 0 300 (s3\<lparr>typingActive := False, paused := False\<rparr>)
             in coopDelay hc n (word_of_int (120 + d')) s4) = Some s'"
      by (auto simp: typeLikeHuman_def s1_def Let_def bind_eq_Some_conv)
    obtain d' s4 where r4: "random 0 300 (s3\<lparr>typingActive := False, paused := False\<rparr>) = (d', s4)"
      by (cases "random 0 300 (s3\<lparr>typingActive := False, paused := False\<rparr>)")
    from random_drew [OF r4] have i4: "\<not> typingActive s4" "\<not> paused s4"
      by (simp_all add: drew_fields)
    from fin r4 have "coopWait hc n (clock s4) (word_of_int (120 + d')) s4 = Some s'"
      by (simp add: coopDelay_def)
    with i4 have "s' = s4" by (cases n) simp_all
    with i4 show ?thesis by simp
  qed
qed

lemma typeLikeHuman_sound:
  assumes hc: "\<And>s s'. sound s \<Longrightarrow> hc s = Some s' \<Longrightarrow> sound s'"
    and s: "sound s" and r: "typeLikeHuman hc n rawText s = Some s'"
  shows "sound s'"
proof (cases "link s")
  case False
  with r s show ?thesis by (simp add: typeLikeHuman_def)
next
  case True
  obtain d s0 where r0: "random (- 10) 11 s = (d, s0)" by (cases "random (- 10) 11 s")
  define s1 where "s1 = s0\<lparr>sessionSpeedPct := d\<rparr>"
  from random_drew [OF r0] s have s1: "sound s1"
    by (simp add: s1_def sound_def flagsOK_def drew_fields)
  show ?thesis
  proof (cases "sessionText (cfg s1) rawText = []")
    case True
    with r \<open>link s\<close> r0 have "s' = s1" by (simp add: typeLikeHuman_def s1_def Let_def)
    with s1 show ?thesis by simp
  next
    case False
    obtain ses s2 where b: "beginSession (sessionText (cfg s1) rawText) (codeMode (cfg s1)) s1 = (ses, s2)"
      by (cases "beginSession (sessionText (cfg s1) rawText) (codeMode (cfg s1)) s1")
    obtain off t where ro: "random (- 2) 3 (s1\<lparr>typingActive := True, paused := False, typedChars := 0\<rparr>) = (off, t)"
      by (cases "random (- 2) 3 (s1\<lparr>typingActive := True, paused := False, typedChars := 0\<rparr>)")
    with b have "s2 = t" by (simp add: beginSession_def Let_def)
    with random_drew [OF ro] s1 have s2: "sound s2"
      by (simp add: sound_def flagsOK_def drew_fields)
    from r \<open>link s\<close> r0 False b obtain s3 where
      lp: "typeLoop hc n ses 0 0 s2 = Some s3"
      and fin: "(let (d', s4) = random 0 300 (s3\<lparr>typingActive := False, paused := False\<rparr>)
             in coopDelay hc n (word_of_int (120 + d')) s4) = Some s'"
      by (auto simp: typeLikeHuman_def s1_def Let_def bind_eq_Some_conv)
    from typeLoop_sound [OF hc s2 lp] have s3: "sound s3" .
    obtain d' s4 where r4: "random 0 300 (s3\<lparr>typingActive := False, paused := False\<rparr>) = (d', s4)"
      by (cases "random 0 300 (s3\<lparr>typingActive := False, paused := False\<rparr>)")
    from random_drew [OF r4] s3 have s4: "sound s4"
      by (simp add: sound_def flagsOK_def drew_fields)
    from fin r4 have "coopDelay hc n (word_of_int (120 + d')) s4 = Some s'" by simp
    from coopDelay_sound [OF hc s4 this] show ?thesis .
  qed
qed

lemma dispatch_sound:
  assumes hc: "\<And>s s'. sound s \<Longrightarrow> hc s = Some s' \<Longrightarrow> sound s'"
    and s: "sound s" and r: "dispatch hc n s = Some s'"
  shows "sound s'"
proof (cases "pending s")
  case Nil
  with r s show ?thesis by (simp add: dispatch_def)
next
  case (Cons e es)
  define s1 where "s1 = s\<lparr>pending := es\<rparr>"
  from s have s1: "sound s1" by (simp add: s1_def sound_def flagsOK_def)
  show ?thesis
  proof (cases e)
    case Quiet
    with r Cons s1 show ?thesis by (simp add: dispatch_def serve_def s1_def)
  next
    case (Link b)
    with r Cons s1 show ?thesis by (auto simp: dispatch_def serve_def s1_def sound_def flagsOK_def)
  next
    case (TypeReq body)
    with r Cons have h: "handleType hc n body s1 = Some s'" by (simp add: dispatch_def serve_def s1_def)
    show ?thesis
    proof (cases "typingActive s1 \<or> body = [] \<or> \<not> link s1")
      case True
      with h s1 show ?thesis
        by (auto simp: handleType_def reply_def sound_def flagsOK_def docOK_def split: if_splits)
    next
      case False
      with h have t: "typeLikeHuman hc n body ((delay 10 (reply 200 s1))\<lparr>paused := False\<rparr>) = Some s'"
        by (simp add: handleType_def)
      from s1 have "sound ((delay 10 (reply 200 s1))\<lparr>paused := False\<rparr>)"
        by (simp add: sound_def flagsOK_def delay_def reply_def docOK_def)
      from typeLikeHuman_sound [OF hc this t] show ?thesis .
    qed
  next
    case StopReq
    with r Cons s1 show ?thesis
      by (auto simp: dispatch_def serve_def s1_def handleStop_def reply_def sound_def flagsOK_def docOK_def Let_def
            split: if_splits)
  next
    case PauseReq
    with r Cons s1 show ?thesis
      by (auto simp: dispatch_def serve_def s1_def handlePause_def reply_def sound_def flagsOK_def docOK_def Let_def
            split: if_splits)
  next
    case (ConfigReq args)
    with r Cons s1 show ?thesis
      by (auto simp: dispatch_def serve_def s1_def handleConfig_def reply_def sound_def flagsOK_def docOK_def Let_def)
  next
    case StatusReq
    with r Cons s1 show ?thesis
      by (auto simp: dispatch_def serve_def s1_def handleStatus_def sound_def flagsOK_def docOK_def Let_def)
  qed
qed

lemma handleClient_sound:
  "sound s \<Longrightarrow> handleClient l n s = Some s' \<Longrightarrow> sound s'"
proof (induction l arbitrary: s s')
  case 0
  then show ?case by simp
next
  case (Suc l)
  from Suc.prems(2) have "dispatch (handleClient l n) n s = Some s'" by simp
  from dispatch_sound [OF Suc.IH Suc.prems(1) this] show ?case .
qed

text \<open>
  C10.  \<^verbatim>\<open>paused\<close> implies \<^verbatim>\<open>typingActive\<close> in the state after \<^verbatim>\<open>setup()\<close> and
  after every call of the dispatcher that returns, at any nesting level, and in every
  status document answered on the way (so also at every point inside a session where the
  dispatcher is served).  A session entered idle and not paused ends with both flags
  cleared, and a session begins active and not paused.
\<close>

theorem C10_paused_implies_active:
  "sound (boot smp up rs evs)
   \<and> (sound s \<and> handleClient l n s = Some s' \<longrightarrow> sound s')
   \<and> (\<not> typingActive s \<and> \<not> paused s \<and> typeLikeHuman (handleClient l n) n rawText s = Some s'
        \<longrightarrow> \<not> typingActive s' \<and> \<not> paused s')
   \<and> typingActive (snd (beginSession text code s)) \<and> \<not> paused (snd (beginSession text code s))"
proof (intro conjI impI)
  show "sound (boot smp up rs evs)"
    by (simp add: sound_def flagsOK_def boot_def)
  show "sound s'" if "sound s \<and> handleClient l n s = Some s'"
    using that handleClient_sound by blast
  show "\<not> typingActive s'" "\<not> paused s'"
    if "\<not> typingActive s \<and> \<not> paused s \<and> typeLikeHuman (handleClient l n) n rawText s = Some s'"
    using that typeLikeHuman_ends_idle by blast+
  obtain off t where ro: "random (- 2) 3 (s\<lparr>typingActive := True, paused := False, typedChars := 0\<rparr>) = (off, t)"
    by (cases "random (- 2) 3 (s\<lparr>typingActive := True, paused := False, typedChars := 0\<rparr>)")
  then have e: "snd (beginSession text code s) = t" by (simp add: beginSession_def Let_def)
  from random_drew [OF ro] show "typingActive (snd (beginSession text code s))"
    and "\<not> paused (snd (beginSession text code s))"
    unfolding e by (simp_all add: drew_fields)
qed


text \<open>C10 on a session for ab that is paused, asked for its status, resumed and asked
  again.\<close>

theorem C10_witness:
  "sound (boot flat True [] [TypeReq ''ab'', PauseReq, StatusReq, PauseReq, StatusReq])
   \<and> (\<exists>s'. handleClient (Suc (Suc 0)) 300
          (boot flat True [] [TypeReq ''ab'', PauseReq, StatusReq, PauseReq, StatusReq]) = Some s'
        \<and> sound s'
        \<and> replies s' = [Reply 200, Reply 200, StatusDoc True 0 True True, Reply 200,
                         StatusDoc True 0 True False])
   \<and> (\<exists>s'. typeLikeHuman (handleClient (Suc 0) 300) 300 ''ab'' (boot flat True [] [PauseReq, PauseReq])
          = Some s' \<and> \<not> typingActive s' \<and> \<not> paused s')"
proof -
  let ?b = "boot flat True [] [TypeReq ''ab'', PauseReq, StatusReq, PauseReq, StatusReq]"
  let ?c = "boot flat True [] [PauseReq, PauseReq]"
  note inst = C10_paused_implies_active [of flat True "[]"
      "[TypeReq ''ab'', PauseReq, StatusReq, PauseReq, StatusReq]"]
  have b: "sound ?b" using inst by blast
  have "map_option replies (handleClient (Suc (Suc 0)) 300 ?b)
        = Some [Reply 200, Reply 200, StatusDoc True 0 True True, Reply 200,
                StatusDoc True 0 True False]"
    by (simp add: run_simps)
  then obtain s' where r: "handleClient (Suc (Suc 0)) 300 ?b = Some s'"
    and rp: "replies s' = [Reply 200, Reply 200, StatusDoc True 0 True True, Reply 200,
                StatusDoc True 0 True False]"
    by auto
  from inst [where s = ?b and l = "Suc (Suc 0)" and n = 300 and s' = s'] b r
  have s': "sound s'" by blast
  have "map_option typedChars (typeLikeHuman (handleClient (Suc 0) 300) 300 ''ab'' ?c) = Some 2"
    by (simp add: run_simps)
  then obtain t where t: "typeLikeHuman (handleClient (Suc 0) 300) 300 ''ab'' ?c = Some t"
    by auto
  have idle: "\<not> typingActive ?c \<and> \<not> paused ?c" by (simp add: boot_def)
  from C10_paused_implies_active [where s = ?c and l = "Suc 0" and n = 300 and s' = t
      and rawText = "''ab''"] idle t
  have "\<not> typingActive t \<and> \<not> paused t" by blast
  with b r s' rp t show ?thesis by blast
qed


section \<open>Configuration updates during a session\<close>














































section \<open>Where an update is kept\<close>






lemma stored_simps [simp]:
  "stored z (sendChar c s) = stored z s"
  "stored z (sendBackspace s) = stored z s"
  "stored z (delay k s) = stored z s"
  "stored z (reply code s) = stored z s"
  "stored z (s\<lparr>typedChars := tc\<rparr>) = stored z s"
  "stored z (s\<lparr>sessionSpeedPct := d\<rparr>) = stored z s"
  "stored z (s\<lparr>typingActive := a\<rparr>) = stored z s"
  "stored z (s\<lparr>paused := b\<rparr>) = stored z s"
  "stored z (s\<lparr>link := up\<rparr>) = stored z s"
  "stored z (s\<lparr>replies := rs\<rparr>) = stored z s"
  by (simp_all add: stored_def served_def sendChar_def sendBackspace_def delay_def reply_def)



















section \<open>What a session reads when it starts\<close>








text \<open>A start request served after a stop request is accepted and begins the next session
  inside the wait of the one that was stopped; that session reads the configuration as
  updated (here \<^verbatim>\<open>nl=2\<close>: a, b in place of a, space, b).\<close>

lemma start_after_stop:
  "(let s = (boot flat True [] [])\<lparr>cfg := defaults\<lparr>enableTypos := False, enableLongPauses := False\<rparr>\<rparr>;
        evs = [ConfigReq [(''nl'', 2)], StopReq, TypeReq [CHR ''a'', LF, CHR ''b'']];
        evs' = [Quiet, StopReq, TypeReq [CHR ''a'', LF, CHR ''b'']];
        session = typeLikeHuman (handleClient (Suc (Suc 0)) 300) 300 ''ab''
    in list_all2 alike evs evs' \<and> \<not> startsBusy evs
       \<and> map_option keys (session (s\<lparr>pending := evs\<rparr>))
           = Some [Key CHR ''a'', Key CHR ''a'', Key CHR ''b'']
       \<and> map_option keys (session (s\<lparr>pending := evs'\<rparr>))
           = Some [Key CHR ''a'', Key CHR ''a'', Key SP, Key CHR ''b''])"
  by (simp add: run_simps alike_def startOnly_def liveKeys_def noStart_def)


end
